theory Spec2Isabelle
  imports Main "HOL-Library.Word"
begin

unbundle bit_operations_syntax

section \<open>Slashing protection (validator/client/attest\_protect.go)\<close>

subsection \<open>Data\<close>

type_synonym u64 = "64 word"
type_synonym bytes = "8 word list"

text \<open>
  Errors are values. The three rejection messages are the package-level strings of the
  source; \<open>DivideByZeroPanic\<close> stands for the run-time panic of Go's \<open>%\<close> with a zero
  divisor. \<open>errors.Wrap\<close> only adds a message to an error and is modelled as the identity.
\<close>

datatype error =
    StorageError
  | DataCorruption
  | DivideByZeroPanic
  | failedAttLocalProtectionErr
  | failedPreAttSignExternalErr
  | failedPostAttSignExternalErr

text \<open>\<open>kv.HistoryData\<close>, as the source builds it (\<open>Source\<close> and \<open>SigningRoot\<close>).\<close>

record HistoryData =
  Source :: u64
  SigningRoot :: bytes

text \<open>
  Modelled from the spec: \<open>params.BeaconConfig().FarFutureEpoch\<close>, the source epoch of the
  empty sentinel record (max-uint64); the configuration is not part of the sources.
\<close>

definition FarFutureEpoch :: u64 where
  "FarFutureEpoch = 0xFFFFFFFFFFFFFFFF"

text \<open>
  Modelled from the spec: \<open>(*kv.HistoryData).IsEmpty\<close>, not part of the sources. A record
  is empty when it is the sentinel; the source also calls it on the nil pointer that
  \<open>checkHistoryAtTargetEpoch\<close> returns, so nil (\<open>None\<close>) is empty.
\<close>

definition IsEmpty :: "HistoryData option \<Rightarrow> bool" where
  "IsEmpty h = (case h of None \<Rightarrow> True | Some d \<Rightarrow> Source d = FarFutureEpoch)"

definition emptyHistoryData :: HistoryData where
  "emptyHistoryData = \<lparr>Source = FarFutureEpoch, SigningRoot = replicate 32 0\<rparr>"

text \<open>
  Modelled from the spec: \<open>kv.EncHistoryData\<close>, the attesting history of one public key,
  not part of the sources. It holds \<open>latestEpochWritten\<close> and a ring of record slots indexed
  by \<open>epoch mod WeakSubjectivityPeriod\<close>; a slot may hold no record at all (the accessor
  then returns nil). \<open>Unreadable\<close> is a corrupt payload, on which every accessor fails.
\<close>

datatype EncHistoryData =
    Unreadable
  | AttestingHistory u64 "u64 \<Rightarrow> HistoryData option"

text \<open>Modelled from the spec: \<open>GetLatestEpochWritten\<close> of the absent package \<open>kv\<close>.\<close>

definition GetLatestEpochWritten :: "EncHistoryData \<Rightarrow> error + u64" where
  "GetLatestEpochWritten enc =
     (case enc of Unreadable \<Rightarrow> Inl DataCorruption
      | AttestingHistory latest slots \<Rightarrow> Inr latest)"

text \<open>
  Modelled from the spec: \<open>GetTargetData\<close> of the absent package \<open>kv\<close>. It reads the slot
  \<open>target mod WeakSubjectivityPeriod\<close>; the period is a parameter, since the configuration
  is not part of the sources.
\<close>

definition GetTargetData :: "u64 \<Rightarrow> EncHistoryData \<Rightarrow> u64 \<Rightarrow> error + HistoryData option" where
  "GetTargetData wsPeriod enc target =
     (case enc of Unreadable \<Rightarrow> Inl DataCorruption
      | AttestingHistory latest slots \<Rightarrow>
          if wsPeriod = 0 then Inl DivideByZeroPanic
          else Inr (slots (target mod wsPeriod)))"

text \<open>
  The source returns \<open>(bool, error)\<close> and tells the three kinds of slashable vote apart
  only by the warning it logs before \<open>return true, nil\<close>. The verdict keeps that warning;
  \<open>slashable\<close> is the boolean the source returns.
\<close>

datatype verdict = NotSlashable | DoubleVote | SurroundingVote | SurroundedVote

definition slashable :: "verdict \<Rightarrow> bool" where
  "slashable v = (v \<noteq> NotSlashable)"

subsection \<open>The surround checks\<close>

definition surroundedByPrevAttestation :: "u64 \<Rightarrow> u64 \<Rightarrow> u64 \<Rightarrow> u64 \<Rightarrow> bool" where
  "surroundedByPrevAttestation prevSource prevTarget newSource newTarget =
     (prevSource < newSource \<and> newTarget < prevTarget)"

definition surroundingPrevAttestation :: "u64 \<Rightarrow> u64 \<Rightarrow> u64 \<Rightarrow> u64 \<Rightarrow> bool" where
  "surroundingPrevAttestation prevSource prevTarget newSource newTarget =
     (newSource < prevSource \<and> prevTarget < newTarget)"

definition differenceOutsideWeakSubjectivityBounds :: "u64 \<Rightarrow> u64 \<Rightarrow> u64 \<Rightarrow> bool" where
  "differenceOutsideWeakSubjectivityBounds wsPeriod latestEpochWritten targetEpoch =
     (latestEpochWritten \<ge> wsPeriod \<and> targetEpoch \<le> latestEpochWritten - wsPeriod)"

definition checkHistoryAtTargetEpoch ::
  "u64 \<Rightarrow> EncHistoryData \<Rightarrow> u64 \<Rightarrow> u64 \<Rightarrow> error + HistoryData option" where
  "checkHistoryAtTargetEpoch wsPeriod history latestEpochWritten targetEpoch =
     (if differenceOutsideWeakSubjectivityBounds wsPeriod latestEpochWritten targetEpoch
      then Inr None
      else if targetEpoch > latestEpochWritten then Inr None
      else if wsPeriod = 0 then Inl DivideByZeroPanic
      else GetTargetData wsPeriod history (targetEpoch mod wsPeriod))"

text \<open>
  The two loops of \<open>isSurroundVote\<close>. The counter \<open>i\<close> is a uint64 and \<open>i++\<close> wraps, so a
  loop whose upper bound is max-uint64 need not end: not returning is the value \<open>None\<close>.
  Each scan returns whether it found a slashable record, and the number \<open>n\<close> of
  iterations it has run.
\<close>

partial_function (option) surroundingScan ::
  "u64 \<Rightarrow> EncHistoryData \<Rightarrow> u64 \<Rightarrow> u64 \<Rightarrow> u64 \<Rightarrow> u64 \<Rightarrow> nat \<Rightarrow> ((error + bool) \<times> nat) option" where
  "surroundingScan wsPeriod history latestEpochWritten sourceEpoch targetEpoch i n =
     (if i \<le> targetEpoch then
        (case checkHistoryAtTargetEpoch wsPeriod history latestEpochWritten i of
           Inl e \<Rightarrow> Some (Inl e, Suc n)
         | Inr historicalAtt \<Rightarrow>
             (case historicalAtt of
                None \<Rightarrow>
                  surroundingScan wsPeriod history latestEpochWritten sourceEpoch targetEpoch
                    (i + 1) (Suc n)
              | Some att \<Rightarrow>
                  if IsEmpty historicalAtt then
                    surroundingScan wsPeriod history latestEpochWritten sourceEpoch targetEpoch
                      (i + 1) (Suc n)
                  else if surroundingPrevAttestation (Source att) i sourceEpoch targetEpoch
                  then Some (Inr True, Suc n)
                  else
                    surroundingScan wsPeriod history latestEpochWritten sourceEpoch targetEpoch
                      (i + 1) (Suc n)))
      else Some (Inr False, n))"

partial_function (option) surroundedScan ::
  "u64 \<Rightarrow> EncHistoryData \<Rightarrow> u64 \<Rightarrow> u64 \<Rightarrow> u64 \<Rightarrow> u64 \<Rightarrow> nat \<Rightarrow> ((error + bool) \<times> nat) option" where
  "surroundedScan wsPeriod history latestEpochWritten sourceEpoch targetEpoch i n =
     (if i \<le> latestEpochWritten then
        (case checkHistoryAtTargetEpoch wsPeriod history latestEpochWritten i of
           Inl e \<Rightarrow> Some (Inl e, Suc n)
         | Inr historicalAtt \<Rightarrow>
             (case historicalAtt of
                None \<Rightarrow>
                  surroundedScan wsPeriod history latestEpochWritten sourceEpoch targetEpoch
                    (i + 1) (Suc n)
              | Some att \<Rightarrow>
                  if IsEmpty historicalAtt then
                    surroundedScan wsPeriod history latestEpochWritten sourceEpoch targetEpoch
                      (i + 1) (Suc n)
                  else if surroundedByPrevAttestation (Source att) i sourceEpoch targetEpoch
                  then Some (Inr True, Suc n)
                  else
                    surroundedScan wsPeriod history latestEpochWritten sourceEpoch targetEpoch
                      (i + 1) (Suc n)))
      else Some (Inr False, n))"

definition isSurroundVote ::
  "u64 \<Rightarrow> EncHistoryData \<Rightarrow> u64 \<Rightarrow> u64 \<Rightarrow> u64 \<Rightarrow> (error + verdict) option" where
  "isSurroundVote wsPeriod history latestEpochWritten sourceEpoch targetEpoch =
     (case surroundingScan wsPeriod history latestEpochWritten sourceEpoch targetEpoch
             sourceEpoch 0 of
        None \<Rightarrow> None
      | Some (Inl e, n) \<Rightarrow> Some (Inl e)
      | Some (Inr True, n) \<Rightarrow> Some (Inr SurroundingVote)
      | Some (Inr False, n) \<Rightarrow>
          (case surroundedScan wsPeriod history latestEpochWritten sourceEpoch targetEpoch
                  targetEpoch 0 of
             None \<Rightarrow> None
           | Some (Inl e, m) \<Rightarrow> Some (Inl e)
           | Some (Inr True, m) \<Rightarrow> Some (Inr SurroundedVote)
           | Some (Inr False, m) \<Rightarrow> Some (Inr NotSlashable)))"

subsection \<open>The local check\<close>

text \<open>A nil history is \<open>None\<close>; \<open>wsPeriod\<close> is \<open>params.BeaconConfig().WeakSubjectivityPeriod\<close>.\<close>

definition isNewAttSlashable ::
  "u64 \<Rightarrow> EncHistoryData option \<Rightarrow> u64 \<Rightarrow> u64 \<Rightarrow> bytes \<Rightarrow> (error + verdict) option" where
  "isNewAttSlashable wsPeriod history sourceEpoch targetEpoch signingRoot =
     (case history of
        None \<Rightarrow> Some (Inr NotSlashable)
      | Some h \<Rightarrow>
          (case GetLatestEpochWritten h of
             Inl e \<Rightarrow> Some (Inl e)
           | Inr latestEpochWritten \<Rightarrow>
               if latestEpochWritten \<ge> wsPeriod \<and> targetEpoch \<le> latestEpochWritten - wsPeriod
               then Some (Inr NotSlashable)
               else
                 (case GetTargetData wsPeriod h targetEpoch of
                    Inl e \<Rightarrow> Some (Inl e)
                  | Inr prev \<Rightarrow>
                      if (case prev of None \<Rightarrow> False
                          | Some d \<Rightarrow> \<not> IsEmpty prev \<and> signingRoot \<noteq> SigningRoot d)
                      then Some (Inr DoubleVote)
                      else isSurroundVote wsPeriod h latestEpochWritten sourceEpoch
                             targetEpoch)))"

subsection \<open>Recording an accepted vote\<close>

text \<open>
  Modelled from the spec: an attesting history that is created lazily is all-empty; its
  \<open>latestEpochWritten\<close> starts at 0 here.
\<close>

definition emptySlots :: "u64 \<Rightarrow> HistoryData option" where
  "emptySlots = (\<lambda>slot. Some emptyHistoryData)"

definition newAttestingHistory :: EncHistoryData where
  "newAttestingHistory = AttestingHistory 0 emptySlots"

text \<open>
  Modelled from the spec: the loop of step 6 that writes the empty sentinel into the slot of
  every epoch \<open>i\<close> with \<open>i < target\<close>, starting after \<open>latestEpochWritten\<close>.
\<close>

function clearSkipped ::
  "u64 \<Rightarrow> (u64 \<Rightarrow> HistoryData option) \<Rightarrow> u64 \<Rightarrow> u64 \<Rightarrow> (u64 \<Rightarrow> HistoryData option)" where
  "clearSkipped wsPeriod slots i target =
     (if i < target
      then clearSkipped wsPeriod (slots(i mod wsPeriod := Some emptyHistoryData)) (i + 1) target
      else slots)"
  by pat_completeness auto
termination
proof (relation "measure (\<lambda>(wsPeriod, slots, i, target). unat target - unat i)")
  show "wf (measure (\<lambda>(wsPeriod, slots, i, target). unat target - unat i))"
    by simp
next
  fix wsPeriod :: u64 and slots :: "u64 \<Rightarrow> HistoryData option" and i target :: u64
  assume lt: "i < target"
  then have "i \<noteq> - 1"
    by (metis word_order.extremum_strict)
  then have "1 + i \<noteq> 0"
    by (simp add: add_eq_0_iff)
  then have "unat (i + 1) = Suc (unat i)"
    by (simp add: unatSuc add.commute)
  with lt show "((wsPeriod, slots(i mod wsPeriod := Some emptyHistoryData), i + 1, target),
                 (wsPeriod, slots, i, target))
                \<in> measure (\<lambda>(wsPeriod, slots, i, target). unat target - unat i)"
    by (simp add: word_less_nat_alt)
qed

declare clearSkipped.simps [simp del]

text \<open>
  Modelled from the spec: \<open>kv.MarkAllAsAttestedSinceLatestWrittenEpoch\<close>, not part of the
  sources (step 6 of the algorithm). Every epoch strictly between \<open>latestEpochWritten\<close> and
  the target gets the empty sentinel, the vote is written at the target's slot, and
  \<open>latestEpochWritten\<close> becomes the maximum of its old value and the target. A nil history
  is created lazily first (step 1).
\<close>

definition MarkAllAsAttestedSinceLatestWrittenEpoch ::
  "u64 \<Rightarrow> EncHistoryData option \<Rightarrow> u64 \<Rightarrow> HistoryData \<Rightarrow> error + EncHistoryData" where
  "MarkAllAsAttestedSinceLatestWrittenEpoch wsPeriod hist incomingTarget incomingAtt =
     (case (case hist of None \<Rightarrow> newAttestingHistory | Some h \<Rightarrow> h) of
        Unreadable \<Rightarrow> Inl DataCorruption
      | AttestingHistory latest slots \<Rightarrow>
          if wsPeriod = 0 then Inl DivideByZeroPanic
          else
            Inr (AttestingHistory (max latest incomingTarget)
                   ((if latest < incomingTarget
                     then clearSkipped wsPeriod slots (latest + 1) incomingTarget
                     else slots)
                    (incomingTarget mod wsPeriod := Some incomingAtt))))"

subsection \<open>The validator and its collaborators\<close>

type_synonym pubKey = bytes

text \<open>
  Of \<open>ethpb.IndexedAttestation\<close> the check reads \<open>Data.Source.Epoch\<close> and
  \<open>Data.Target.Epoch\<close> only.
\<close>

record IndexedAttestation =
  Data_Source_Epoch :: u64
  Data_Target_Epoch :: u64

text \<open>The external slasher client behind \<open>v.protector\<close>: what its two calls answer.\<close>

record Protector =
  CheckAttestationSafety :: "IndexedAttestation \<Rightarrow> bool"
  CommitAttestation :: "IndexedAttestation \<Rightarrow> bool"

text \<open>What the validator does to the world, in the order it does it.\<close>

datatype event =
    ValidatorAttestFailVec pubKey
  | ValidatorAttestFailVecSlasher pubKey
  | SavedAttestationHistory pubKey EncHistoryData
  | CalledCheckAttestationSafety IndexedAttestation
  | CalledCommitAttestation IndexedAttestation

text \<open>
  The state the check runs in: the histories the database holds (\<open>None\<close> is nil), the
  keys for which a read or a write fails, the validator's settings, and the events so far.
\<close>

record validator =
  db :: "pubKey \<Rightarrow> EncHistoryData option"
  dbReadError :: "pubKey \<Rightarrow> error option"
  dbWriteError :: "pubKey \<Rightarrow> error option"
  emitAccountMetrics :: bool
  SlasherProtection :: bool
  protector :: "Protector option"
  events :: "event list"

text \<open>Modelled from the spec: the two calls of the history store, not part of the sources.\<close>

definition AttestationHistoryForPubKeyV2 :: "validator \<Rightarrow> pubKey \<Rightarrow> error + EncHistoryData option" where
  "AttestationHistoryForPubKeyV2 v pubKey =
     (case dbReadError v pubKey of Some e \<Rightarrow> Inl e | None \<Rightarrow> Inr (db v pubKey))"

definition SaveAttestationHistoryForPubKeyV2 ::
  "validator \<Rightarrow> pubKey \<Rightarrow> EncHistoryData \<Rightarrow> error option \<times> validator" where
  "SaveAttestationHistoryForPubKeyV2 v pubKey history =
     (case dbWriteError v pubKey of
        Some e \<Rightarrow> (Some e, v)
      | None \<Rightarrow>
          (None, v\<lparr>db := (db v)(pubKey := Some history),
                    events := events v @ [SavedAttestationHistory pubKey history]\<rparr>))"

definition incMetric :: "validator \<Rightarrow> event \<Rightarrow> validator" where
  "incMetric v m = (if emitAccountMetrics v then v\<lparr>events := events v @ [m]\<rparr> else v)"

text \<open>
  The result is the returned error (\<open>None\<close> is nil) and the state afterwards; the outer
  \<open>option\<close> is \<open>None\<close> when the local check does not return.
\<close>

definition slashableAttestationCheck ::
  "u64 \<Rightarrow> validator \<Rightarrow> IndexedAttestation \<Rightarrow> pubKey \<Rightarrow> bytes \<Rightarrow> (error option \<times> validator) option" where
  "slashableAttestationCheck wsPeriod v indexedAtt pubKey signingRoot =
     (case AttestationHistoryForPubKeyV2 v pubKey of
        Inl err \<Rightarrow> Some (Some err, v)
      | Inr attesterHistory \<Rightarrow>
          (case isNewAttSlashable wsPeriod attesterHistory (Data_Source_Epoch indexedAtt)
                  (Data_Target_Epoch indexedAtt) signingRoot of
             None \<Rightarrow> None
           | Some (Inl err) \<Rightarrow> Some (Some err, v)
           | Some (Inr verd) \<Rightarrow>
               if slashable verd
               then Some (Some failedAttLocalProtectionErr,
                          incMetric v (ValidatorAttestFailVec pubKey))
               else
                 (case MarkAllAsAttestedSinceLatestWrittenEpoch wsPeriod attesterHistory
                         (Data_Target_Epoch indexedAtt)
                         \<lparr>Source = Data_Source_Epoch indexedAtt, SigningRoot = signingRoot\<rparr> of
                    Inl err \<Rightarrow> Some (Some err, v)
                  | Inr newHistory \<Rightarrow>
                      (case SaveAttestationHistoryForPubKeyV2 v pubKey newHistory of
                         (Some err, v1) \<Rightarrow> Some (Some err, v1)
                       | (None, v1) \<Rightarrow>
                           (case protector v1 of
                              Some p \<Rightarrow>
                                if SlasherProtection v1 then
                                  (let v2 = v1\<lparr>events := events v1 @
                                              [CalledCheckAttestationSafety indexedAtt]\<rparr>
                                   in if \<not> CheckAttestationSafety p indexedAtt
                                      then Some (Some failedPreAttSignExternalErr,
                                                 incMetric v2 (ValidatorAttestFailVecSlasher pubKey))
                                      else
                                        (let v3 = v2\<lparr>events := events v2 @
                                                    [CalledCommitAttestation indexedAtt]\<rparr>
                                         in if \<not> CommitAttestation p indexedAtt
                                            then Some (Some failedPostAttSignExternalErr,
                                                       incMetric v3
                                                         (ValidatorAttestFailVecSlasher pubKey))
                                            else Some (None, v3)))
                                else Some (None, v1)
                            | None \<Rightarrow> Some (None, v1))))))"

subsection \<open>What the scans look for\<close>

text \<open>
  The record a scan inspects at epoch \<open>i\<close> is the one in slot \<open>i mod wsPeriod\<close>, provided
  \<open>i\<close> is not above \<open>latestEpochWritten\<close> and not outside the weak-subjectivity window. It
  makes the new vote a surrounding vote when it is non-empty with
  \<open>newSource < prevSource\<close> and \<open>i < newTarget\<close>, and a surrounded vote when it is non-empty
  with \<open>prevSource < newSource\<close> and \<open>newTarget < i\<close>.
\<close>

definition surroundingRecordAt ::
  "u64 \<Rightarrow> (u64 \<Rightarrow> HistoryData option) \<Rightarrow> u64 \<Rightarrow> u64 \<Rightarrow> u64 \<Rightarrow> u64 \<Rightarrow> bool" where
  "surroundingRecordAt wsPeriod slots latest newSource newTarget i =
     (i \<le> latest \<and> \<not> differenceOutsideWeakSubjectivityBounds wsPeriod latest i \<and>
      (case slots (i mod wsPeriod) of
         None \<Rightarrow> False
       | Some d \<Rightarrow> Source d \<noteq> FarFutureEpoch \<and> newSource < Source d \<and> i < newTarget))"

definition surroundedRecordAt ::
  "u64 \<Rightarrow> (u64 \<Rightarrow> HistoryData option) \<Rightarrow> u64 \<Rightarrow> u64 \<Rightarrow> u64 \<Rightarrow> u64 \<Rightarrow> bool" where
  "surroundedRecordAt wsPeriod slots latest newSource newTarget i =
     (i \<le> latest \<and> \<not> differenceOutsideWeakSubjectivityBounds wsPeriod latest i \<and>
      (case slots (i mod wsPeriod) of
         None \<Rightarrow> False
       | Some d \<Rightarrow> Source d \<noteq> FarFutureEpoch \<and> Source d < newSource \<and> newTarget < i))"

subsection \<open>Concrete histories and validators\<close>

text \<open>
  The history after a first vote with source 0, target 1 and root \<open>[1]\<close>, an attestation
  with these epochs, two external slashers (one refusing the pre-check, one refusing the
  commit), and a validator over a database that holds one history for every key.
\<close>

definition oneVoteHistory :: EncHistoryData where
  "oneVoteHistory = AttestingHistory 1 (emptySlots(1 := Some \<lparr>Source = 0, SigningRoot = [1]\<rparr>))"

definition vote01 :: IndexedAttestation where
  "vote01 = \<lparr>Data_Source_Epoch = 0, Data_Target_Epoch = 1\<rparr>"

definition refusingProtector :: Protector where
  "refusingProtector = \<lparr>CheckAttestationSafety = (\<lambda>att. False), CommitAttestation = (\<lambda>att. False)\<rparr>"

definition commitRefusingProtector :: Protector where
  "commitRefusingProtector = \<lparr>CheckAttestationSafety = (\<lambda>att. True), CommitAttestation = (\<lambda>att. False)\<rparr>"

definition testValidator :: "EncHistoryData option \<Rightarrow> Protector option \<Rightarrow> validator" where
  "testValidator stored p =
     \<lparr>db = (\<lambda>key. stored), dbReadError = (\<lambda>key. None), dbWriteError = (\<lambda>key. None),
      emitAccountMetrics = True, SlasherProtection = True, protector = p, events = []\<rparr>"

text \<open>
  A ring with two recorded votes: source 3 with target 4, and source 0 with target 10.
\<close>

definition twoVotesSlots :: "u64 \<Rightarrow> HistoryData option" where
  "twoVotesSlots = emptySlots(4 := Some \<lparr>Source = 3, SigningRoot = [1]\<rparr>,
                              10 := Some \<lparr>Source = 0, SigningRoot = [2]\<rparr>)"



section \<open>Attestation aggregation (beacon-chain/core/helpers/attaggregation)\<close>

text \<open>
  Of this package the sources hold the tests only. \<open>AggregatePair\<close> and \<open>Aggregate\<close>
  (the spec's PairwiseMerge and FullAggregate) and the bit-vector operations under them
  are modelled from the spec.
\<close>

subsection \<open>Bit-vectors\<close>

text \<open>
  Modelled from the spec: a BitVector is a sequence of flags with one sentinel bit set right
  after the last flag, so that the index of the highest set bit is the logical length. It
  is kept as the number whose binary digits are these bits; \<open>Bitlist\<close> reads it from the
  little-endian bytes the tests write.
\<close>

type_synonym BitVector = nat

fun Bitlist :: "bytes \<Rightarrow> BitVector" where
  "Bitlist [] = 0"
| "Bitlist (b # bs) = unat b + 256 * Bitlist bs"

text \<open>Modelled from the spec: the logical length, the index of the highest set bit.\<close>

fun Len :: "BitVector \<Rightarrow> nat" where
  "Len v = (if v < 2 then 0 else Len (v div 2) + 1)"

declare Len.simps [simp del]

text \<open>Modelled from the spec: the flag bits, the sentinel masked out.\<close>

definition flags :: "BitVector \<Rightarrow> nat" where
  "flags v = v mod 2 ^ Len v"

text \<open>Modelled from the spec: the overlap test and the subset test of BitVector Ops.\<close>

definition Overlaps :: "BitVector \<Rightarrow> BitVector \<Rightarrow> bool" where
  "Overlaps a b = (flags a AND flags b \<noteq> 0)"

definition Contains :: "BitVector \<Rightarrow> BitVector \<Rightarrow> bool" where
  "Contains g a = (flags g OR flags a = flags g)"

text \<open>Modelled from the spec: the OR-merge, the sentinel re-applied at the shared length.\<close>

definition Or :: "BitVector \<Rightarrow> BitVector \<Rightarrow> BitVector" where
  "Or a b = (flags a OR flags b) OR 2 ^ Len a"

text \<open>The set of committee members whose flag is set.\<close>

definition flagBits :: "BitVector \<Rightarrow> nat set" where
  "flagBits v = {i \<in> {0..<Len v}. bit v i}"

subsection \<open>Attestations\<close>

text \<open>Modelled from the spec: the vote content of section 3.\<close>

record Attestation =
  AggregationBits :: BitVector
  attSourceEpoch :: u64
  attTargetEpoch :: u64
  attSigningRoot :: bytes

datatype aggregationError = ErrBitsOverlap | ErrBitsDifferentLen

text \<open>
  Modelled from the spec: PairwiseMerge. Equal logical lengths are required, then an empty
  intersection of the flag bits; the result carries the union and the vote content of \<open>a\<close>.
\<close>

definition AggregatePair :: "Attestation \<Rightarrow> Attestation \<Rightarrow> aggregationError + Attestation" where
  "AggregatePair a b =
     (if Len (AggregationBits a) \<noteq> Len (AggregationBits b) then Inl ErrBitsDifferentLen
      else if Overlaps (AggregationBits a) (AggregationBits b) then Inl ErrBitsOverlap
      else Inr (a\<lparr>AggregationBits := Or (AggregationBits a) (AggregationBits b)\<rparr>))"




text \<open>The partition of the inputs by logical length.\<close>

definition attLen :: "Attestation \<Rightarrow> nat" where
  "attLen a = Len (AggregationBits a)"




text \<open>
  Modelled from the spec: the helpers of the tests, not part of the sources. An attestation
  made from a bit-vector alone, the \<open>n\<close> vectors of length \<open>n\<close> with a single flag set, and
  the vector of length \<open>n\<close> with every flag set.
\<close>

definition makeAttestation :: "BitVector \<Rightarrow> Attestation" where
  "makeAttestation v = \<lparr>AggregationBits = v, attSourceEpoch = 0, attTargetEpoch = 0, attSigningRoot = []\<rparr>"

definition bitlistsWithSingleBitSet :: "nat \<Rightarrow> BitVector list" where
  "bitlistsWithSingleBitSet n = map (\<lambda>i. 2 ^ n + 2 ^ i) [0..<n]"

definition bitlistWithAllBitsSet :: "nat \<Rightarrow> BitVector" where
  "bitlistWithAllBitsSet n = 2 ^ n + (2 ^ n - 1)"

text \<open>The flag sets of a list of attestations do not meet pairwise.\<close>

fun pairwiseDisjoint :: "Attestation list \<Rightarrow> bool" where
  "pairwiseDisjoint [] = True"
| "pairwiseDisjoint (m # ms) =
     ((\<forall>x \<in> set ms. flagBits (AggregationBits m) \<inter> flagBits (AggregationBits x) = {}) \<and>
      pairwiseDisjoint ms)"

section \<open>Properties of the slashing check\<close>

subsection \<open>Counting in uint64\<close>

lemma u64_succ_neq: "(i::u64) \<noteq> - 1 \<Longrightarrow> unat (i + 1) = Suc (unat i)"
proof -
  assume "i \<noteq> - 1"
  then have "1 + i \<noteq> 0" by (simp add: add_eq_0_iff)
  then show ?thesis by (simp add: unatSuc add.commute)
qed

lemma u64_le_neq: "(i::u64) \<le> t \<Longrightarrow> t \<noteq> - 1 \<Longrightarrow> i \<noteq> - 1"
  by (metis word_order.extremum_unique)

lemma u64_le_succ: "(i::u64) \<noteq> - 1 \<Longrightarrow> (i \<le> j) = (j = i \<or> i + 1 \<le> j)"
  by (auto simp: word_le_nat_alt u64_succ_neq word_unat_eq_iff)

lemma u64_mod_mod: "(i::u64) mod P mod P = i mod P"
  by (metis mod_by_0 mod_word_less word_gt_0 word_mod_less_divisor)

lemma checkHistory_readable:
  "checkHistoryAtTargetEpoch P (AttestingHistory L0 slots) L i =
     Inr (if differenceOutsideWeakSubjectivityBounds P L i \<or> L < i then None
          else slots (i mod P))"
  by (auto simp: checkHistoryAtTargetEpoch_def GetTargetData_def u64_mod_mod
        differenceOutsideWeakSubjectivityBounds_def)

subsection \<open>The scans on a readable history\<close>

text \<open>One iteration of each loop at epoch \<open>i\<close>.\<close>

lemma surroundingScan_step:
  assumes "i \<le> T"
  shows "surroundingScan P (AttestingHistory L0 slots) L S T i n =
           (if surroundingRecordAt P slots L S T i then Some (Inr True, Suc n)
            else surroundingScan P (AttestingHistory L0 slots) L S T (i + 1) (Suc n))"
  using assms
  by (subst surroundingScan.simps)
     (auto simp: checkHistory_readable surroundingRecordAt_def IsEmpty_def
        surroundingPrevAttestation_def split: option.splits)

lemma surroundedScan_step:
  assumes "i \<le> L"
  shows "surroundedScan P (AttestingHistory L0 slots) L S T i n =
           (if surroundedRecordAt P slots L S T i then Some (Inr True, Suc n)
            else surroundedScan P (AttestingHistory L0 slots) L S T (i + 1) (Suc n))"
  using assms
  by (subst surroundedScan.simps)
     (auto simp: checkHistory_readable surroundedRecordAt_def IsEmpty_def
        surroundedByPrevAttestation_def split: option.splits)

lemma surroundingScan_readable:
  assumes T: "T \<noteq> - 1"
  shows "unat i \<le> Suc (unat T) \<Longrightarrow>
     \<exists>m. surroundingScan P (AttestingHistory L0 slots) L S T i n =
            Some (Inr (\<exists>j. i \<le> j \<and> j \<le> T \<and> surroundingRecordAt P slots L S T j), m)"
proof (induction "Suc (unat T) - unat i" arbitrary: i n)
  case 0
  then have "\<not> i \<le> T" by (simp add: word_le_nat_alt)
  then show ?case
    by (subst surroundingScan.simps) auto
next
  case (Suc k)
  then have iT: "i \<le> T" by (simp add: word_le_nat_alt)
  have i: "i \<noteq> - 1" using iT T by (rule u64_le_neq)
  have su: "unat (i + 1) = Suc (unat i)" using i by (rule u64_succ_neq)
  have k: "k = Suc (unat T) - unat (i + 1)" using Suc.hyps(2) su by simp
  have le: "unat (i + 1) \<le> Suc (unat T)" using iT su by (simp add: word_le_nat_alt)
  have ex: "(\<exists>j. i \<le> j \<and> j \<le> T \<and> surroundingRecordAt P slots L S T j)
      = (surroundingRecordAt P slots L S T i \<or>
         (\<exists>j. i + 1 \<le> j \<and> j \<le> T \<and> surroundingRecordAt P slots L S T j))"
    using u64_le_succ[OF i] iT by auto
  show ?case
    using Suc.hyps(1)[OF k le, of "Suc n"] ex
    by (simp add: surroundingScan_step[OF iT])
qed

lemma surroundedScan_readable:
  assumes L: "L \<noteq> - 1"
  shows "unat i \<le> Suc (unat L) \<Longrightarrow>
     \<exists>m. surroundedScan P (AttestingHistory L0 slots) L S T i n =
            Some (Inr (\<exists>j. i \<le> j \<and> j \<le> L \<and> surroundedRecordAt P slots L S T j), m)"
proof (induction "Suc (unat L) - unat i" arbitrary: i n)
  case 0
  then have "\<not> i \<le> L" by (simp add: word_le_nat_alt)
  then show ?case
    by (subst surroundedScan.simps) auto
next
  case (Suc k)
  then have iL: "i \<le> L" by (simp add: word_le_nat_alt)
  have i: "i \<noteq> - 1" using iL L by (rule u64_le_neq)
  have su: "unat (i + 1) = Suc (unat i)" using i by (rule u64_succ_neq)
  have k: "k = Suc (unat L) - unat (i + 1)" using Suc.hyps(2) su by simp
  have le: "unat (i + 1) \<le> Suc (unat L)" using iL su by (simp add: word_le_nat_alt)
  have ex: "(\<exists>j. i \<le> j \<and> j \<le> L \<and> surroundedRecordAt P slots L S T j)
      = (surroundedRecordAt P slots L S T i \<or>
         (\<exists>j. i + 1 \<le> j \<and> j \<le> L \<and> surroundedRecordAt P slots L S T j))"
    using u64_le_succ[OF i] iL by auto
  show ?case
    using Suc.hyps(1)[OF k le, of "Suc n"] ex
    by (simp add: surroundedScan_step[OF iL])
qed

text \<open>A scan that starts above its upper bound returns at once.\<close>

lemma surroundingScan_from:
  assumes T: "T \<noteq> - 1"
  shows "\<exists>m. surroundingScan P (AttestingHistory L0 slots) L S T i n =
            Some (Inr (\<exists>j. i \<le> j \<and> j \<le> T \<and> surroundingRecordAt P slots L S T j), m)"
proof (cases "i \<le> T")
  case True
  then have "unat i \<le> Suc (unat T)" by (simp add: word_le_nat_alt)
  then show ?thesis by (rule surroundingScan_readable[OF T])
next
  case False
  then show ?thesis by (subst surroundingScan.simps) auto
qed

lemma surroundedScan_from:
  assumes L: "L \<noteq> - 1"
  shows "\<exists>m. surroundedScan P (AttestingHistory L0 slots) L S T i n =
            Some (Inr (\<exists>j. i \<le> j \<and> j \<le> L \<and> surroundedRecordAt P slots L S T j), m)"
proof (cases "i \<le> L")
  case True
  then have "unat i \<le> Suc (unat L)" by (simp add: word_le_nat_alt)
  then show ?thesis by (rule surroundedScan_readable[OF L])
next
  case False
  then show ?thesis by (subst surroundedScan.simps) auto
qed

lemma isSurroundVote_readable:
  assumes T: "T \<noteq> - 1" and L: "L \<noteq> - 1"
  shows "isSurroundVote P (AttestingHistory L0 slots) L S T =
     Some (Inr (if \<exists>j. S \<le> j \<and> j \<le> T \<and> surroundingRecordAt P slots L S T j
                then SurroundingVote
                else if \<exists>j. T \<le> j \<and> j \<le> L \<and> surroundedRecordAt P slots L S T j
                then SurroundedVote else NotSlashable))"
proof -
  define b1 where "b1 = (\<exists>j. S \<le> j \<and> j \<le> T \<and> surroundingRecordAt P slots L S T j)"
  define b2 where "b2 = (\<exists>j. T \<le> j \<and> j \<le> L \<and> surroundedRecordAt P slots L S T j)"
  obtain m where a: "surroundingScan P (AttestingHistory L0 slots) L S T S 0 = Some (Inr b1, m)"
    unfolding b1_def using surroundingScan_from[OF T] by blast
  obtain m' where b: "surroundedScan P (AttestingHistory L0 slots) L S T T 0 = Some (Inr b2, m')"
    unfolding b2_def using surroundedScan_from[OF L] by blast
  have "isSurroundVote P (AttestingHistory L0 slots) L S T =
     Some (Inr (if b1 then SurroundingVote else if b2 then SurroundedVote else NotSlashable))"
    unfolding isSurroundVote_def a b by (cases b1; cases b2; simp)
  then show ?thesis unfolding b1_def b2_def .
qed


lemma surroundingScan_terminates:
  assumes T: "T \<noteq> - 1"
  shows "unat i \<le> Suc (unat T) \<Longrightarrow>
     \<exists>r m. surroundingScan P h L S T i n = Some (r, m) \<and> m \<le> n + (Suc (unat T) - unat i)"
proof (induction "Suc (unat T) - unat i" arbitrary: i n)
  case 0
  then have "\<not> i \<le> T" by (simp add: word_le_nat_alt)
  then show ?case
    by (subst surroundingScan.simps) simp
next
  case (Suc k)
  then have iT: "i \<le> T" by (simp add: word_le_nat_alt)
  have i: "i \<noteq> - 1" using iT T by (rule u64_le_neq)
  have su: "unat (i + 1) = Suc (unat i)" using i by (rule u64_succ_neq)
  have k: "k = Suc (unat T) - unat (i + 1)" using Suc.hyps(2) su by simp
  have le: "unat (i + 1) \<le> Suc (unat T)" using iT su by (simp add: word_le_nat_alt)
  obtain r m where rec: "surroundingScan P h L S T (i + 1) (Suc n) = Some (r, m)"
    and m: "m \<le> Suc n + (Suc (unat T) - unat (i + 1))"
    using Suc.hyps(1)[OF k le, of "Suc n"] by blast
  have m': "m \<le> n + Suc k"
    using m k by simp
  have "\<exists>r m. surroundingScan P h L S T i n = Some (r, m) \<and> m \<le> n + Suc k"
    using iT rec m'
    by (subst surroundingScan.simps) (simp split: sum.splits option.splits)
  then show ?case
    unfolding Suc.hyps(2) .
qed

lemma surroundedScan_terminates:
  assumes L: "L \<noteq> - 1"
  shows "unat i \<le> Suc (unat L) \<Longrightarrow>
     \<exists>r m. surroundedScan P h L S T i n = Some (r, m) \<and> m \<le> n + (Suc (unat L) - unat i)"
proof (induction "Suc (unat L) - unat i" arbitrary: i n)
  case 0
  then have "\<not> i \<le> L" by (simp add: word_le_nat_alt)
  then show ?case
    by (subst surroundedScan.simps) simp
next
  case (Suc k)
  then have iL: "i \<le> L" by (simp add: word_le_nat_alt)
  have i: "i \<noteq> - 1" using iL L by (rule u64_le_neq)
  have su: "unat (i + 1) = Suc (unat i)" using i by (rule u64_succ_neq)
  have k: "k = Suc (unat L) - unat (i + 1)" using Suc.hyps(2) su by simp
  have le: "unat (i + 1) \<le> Suc (unat L)" using iL su by (simp add: word_le_nat_alt)
  obtain r m where rec: "surroundedScan P h L S T (i + 1) (Suc n) = Some (r, m)"
    and m: "m \<le> Suc n + (Suc (unat L) - unat (i + 1))"
    using Suc.hyps(1)[OF k le, of "Suc n"] by blast
  have m': "m \<le> n + Suc k"
    using m k by simp
  have "\<exists>r m. surroundedScan P h L S T i n = Some (r, m) \<and> m \<le> n + Suc k"
    using iL rec m'
    by (subst surroundedScan.simps) (simp split: sum.splits option.splits)
  then show ?case
    unfolding Suc.hyps(2) .
qed

lemma surroundingScan_bounded:
  assumes T: "T \<noteq> - 1"
  shows "\<exists>r m. surroundingScan P h L S T i 0 = Some (r, m) \<and>
           m \<le> (if i \<le> T then unat T - unat i + 1 else 0)"
proof (cases "i \<le> T")
  case True
  then have le: "unat i \<le> unat T" by (simp add: word_le_nat_alt)
  then have "unat i \<le> Suc (unat T)" by simp
  from surroundingScan_terminates[OF T this, of P h L S 0] le True
  show ?thesis by (simp add: Suc_diff_le)
next
  case False
  then show ?thesis by (subst surroundingScan.simps) simp
qed

lemma surroundedScan_bounded:
  assumes L: "L \<noteq> - 1"
  shows "\<exists>r m. surroundedScan P h L S T i 0 = Some (r, m) \<and>
           m \<le> (if i \<le> L then unat L - unat i + 1 else 0)"
proof (cases "i \<le> L")
  case True
  then have le: "unat i \<le> unat L" by (simp add: word_le_nat_alt)
  then have "unat i \<le> Suc (unat L)" by simp
  from surroundedScan_terminates[OF L this, of P h S T 0] le True
  show ?thesis by (simp add: Suc_diff_le)
next
  case False
  then show ?thesis by (subst surroundedScan.simps) simp
qed


subsection \<open>Termination of the surround check\<close>

text \<open>
  C10: when \<open>targetEpoch\<close> and \<open>latestEpochWritten\<close> are both below the maximum uint64
  value, \<open>isSurroundVote\<close> returns, on every history. Its first scan runs over
  \<open>[sourceEpoch, targetEpoch]\<close> and its second over \<open>[targetEpoch, latestEpochWritten]\<close>;
  each makes at most \<open>upper - lower + 1\<close> iterations, and none when the lower bound is
  above the upper bound.
\<close>

theorem isSurroundVote_terminates:
  assumes "targetEpoch < 0xFFFFFFFFFFFFFFFF" and "latestEpochWritten < 0xFFFFFFFFFFFFFFFF"
  shows "(\<exists>r n. surroundingScan wsPeriod history latestEpochWritten sourceEpoch targetEpoch
                   sourceEpoch 0 = Some (r, n) \<and>
                 n \<le> (if sourceEpoch \<le> targetEpoch
                       then unat targetEpoch - unat sourceEpoch + 1 else 0)) \<and>
         (\<exists>r n. surroundedScan wsPeriod history latestEpochWritten sourceEpoch targetEpoch
                   targetEpoch 0 = Some (r, n) \<and>
                 n \<le> (if targetEpoch \<le> latestEpochWritten
                       then unat latestEpochWritten - unat targetEpoch + 1 else 0)) \<and>
         (\<exists>res. isSurroundVote wsPeriod history latestEpochWritten sourceEpoch targetEpoch
                   = Some res)"
proof -
  have T: "targetEpoch \<noteq> - 1" and L: "latestEpochWritten \<noteq> - 1"
    using assms by auto
  obtain r n where a: "surroundingScan wsPeriod history latestEpochWritten sourceEpoch
       targetEpoch sourceEpoch 0 = Some (r, n)"
    using surroundingScan_bounded[OF T] by blast
  obtain r' n' where b: "surroundedScan wsPeriod history latestEpochWritten sourceEpoch
       targetEpoch targetEpoch 0 = Some (r', n')"
    using surroundedScan_bounded[OF L] by blast
  have "\<exists>res. isSurroundVote wsPeriod history latestEpochWritten sourceEpoch targetEpoch
                   = Some res"
    unfolding isSurroundVote_def a b
    by (cases r; cases r'; simp split: bool.splits)
  then show ?thesis
    using surroundingScan_bounded[OF T] surroundedScan_bounded[OF L] by blast
qed

theorem isSurroundVote_terminates_witness:
  "(5::u64) < 0xFFFFFFFFFFFFFFFF \<and> (7::u64) < 0xFFFFFFFFFFFFFFFF \<and>
   (\<exists>r n. surroundingScan 4 Unreadable 7 3 5 3 0 = Some (r, n) \<and>
           n \<le> (if (3::u64) \<le> 5 then unat (5::u64) - unat (3::u64) + 1 else 0)) \<and>
   (\<exists>r n. surroundedScan 4 Unreadable 7 3 5 5 0 = Some (r, n) \<and>
           n \<le> (if (5::u64) \<le> 7 then unat (7::u64) - unat (5::u64) + 1 else 0)) \<and>
   (\<exists>res. isSurroundVote 4 Unreadable 7 3 5 = Some res)"
proof -
  have h1: "(5::u64) < 0xFFFFFFFFFFFFFFFF" by simp
  have h2: "(7::u64) < 0xFFFFFFFFFFFFFFFF" by simp
  show ?thesis
    by (intro conjI h1 h2 isSurroundVote_terminates[OF h1 h2, THEN conjunct1]
          isSurroundVote_terminates[OF h1 h2, THEN conjunct2, THEN conjunct1]
          isSurroundVote_terminates[OF h1 h2, THEN conjunct2, THEN conjunct2])
qed

subsection \<open>The stale rule\<close>

text \<open>
  C3: when \<open>latestEpochWritten \<ge> WeakSubjectivityPeriod\<close> and
  \<open>targetEpoch \<le> latestEpochWritten - WeakSubjectivityPeriod\<close>, the check returns
  not slashable at once, whatever the source epoch, the signing root and the stored
  records are: no record is read, so neither the double-vote check nor a scan runs.
\<close>

theorem stale_vote_not_slashable:
  assumes "GetLatestEpochWritten history = Inr latestEpochWritten"
    and "latestEpochWritten \<ge> wsPeriod"
    and "targetEpoch \<le> latestEpochWritten - wsPeriod"
  shows "isNewAttSlashable wsPeriod (Some history) sourceEpoch targetEpoch signingRoot
           = Some (Inr NotSlashable)"
  using assms by (simp add: isNewAttSlashable_def)

theorem stale_vote_not_slashable_witness:
  "GetLatestEpochWritten
     (AttestingHistory 10 (emptySlots(2 := Some \<lparr>Source = 4, SigningRoot = [7]\<rparr>))) = Inr 10 \<and>
   (10::u64) \<ge> 4 \<and> (6::u64) \<le> 10 - 4 \<and>
   isNewAttSlashable 4
     (Some (AttestingHistory 10 (emptySlots(2 := Some \<lparr>Source = 4, SigningRoot = [7]\<rparr>))))
     0 6 [9] = Some (Inr NotSlashable)"
proof -
  have h1: "GetLatestEpochWritten
     (AttestingHistory 10 (emptySlots(2 := Some \<lparr>Source = 4, SigningRoot = [7]\<rparr>))) = Inr 10"
    by (simp add: GetLatestEpochWritten_def)
  have h2: "(10::u64) \<ge> 4" by simp
  have h3: "(6::u64) \<le> 10 - 4" by simp
  show ?thesis
    by (intro conjI h1 h2 h3 stale_vote_not_slashable[OF h1 h2 h3])
qed

subsection \<open>Recording and evaluation\<close>

text \<open>The rules that evaluate the check on a concrete history.\<close>

lemmas slashing_eval =
  isNewAttSlashable_def GetLatestEpochWritten_def GetTargetData_def IsEmpty_def
  FarFutureEpoch_def isSurroundVote_def surroundingScan.simps surroundedScan.simps
  checkHistoryAtTargetEpoch_def differenceOutsideWeakSubjectivityBounds_def
  surroundingPrevAttestation_def surroundedByPrevAttestation_def emptySlots_def
  emptyHistoryData_def word_le_nat_alt word_less_nat_alt

lemma MarkAll_first_vote:
  "MarkAllAsAttestedSinceLatestWrittenEpoch 4 None 1 \<lparr>Source = 0, SigningRoot = [1]\<rparr>
     = Inr oneVoteHistory"
  by (simp add: MarkAllAsAttestedSinceLatestWrittenEpoch_def newAttestingHistory_def
        oneVoteHistory_def clearSkipped.simps)

lemma MarkAll_records_vote:
  assumes "MarkAllAsAttestedSinceLatestWrittenEpoch wsPeriod hist target vote = Inr newHistory"
  shows "GetTargetData wsPeriod newHistory target = Inr (Some vote)"
  using assms
  by (auto simp: MarkAllAsAttestedSinceLatestWrittenEpoch_def GetTargetData_def
        split: EncHistoryData.splits if_splits option.splits)

lemma MarkAll_nil:
  assumes "wsPeriod \<noteq> 0"
  shows "\<exists>newHistory. MarkAllAsAttestedSinceLatestWrittenEpoch wsPeriod None target vote = Inr newHistory
           \<and> GetLatestEpochWritten newHistory = Inr target"
  using assms
  by (simp add: MarkAllAsAttestedSinceLatestWrittenEpoch_def newAttestingHistory_def
        GetLatestEpochWritten_def max_def)


subsection \<open>State effects of a rejection\<close>

text \<open>
  C4: when the local check finds the vote slashable, \<open>slashableAttestationCheck\<close> returns
  the local-protection error before any write: the database is unchanged and the only
  event is the fail metric, so the external slasher is not called. When the vote is
  accepted locally, the new history is saved before the external pre-check; if the
  pre-check refuses, the pre-sign error is returned, the database already holds the history
  that records the vote, and the commit call is not made. If the commit refuses, the
  post-sign error is returned. Every rejection returns an error.
\<close>

theorem rejection_state_effects:
  assumes load: "AttestationHistoryForPubKeyV2 v pubKey = Inr attesterHistory"
    and chk: "isNewAttSlashable wsPeriod attesterHistory (Data_Source_Epoch indexedAtt)
                (Data_Target_Epoch indexedAtt) signingRoot = Some (Inr verd)"
  shows "(slashable verd \<longrightarrow>
            (\<exists>v'. slashableAttestationCheck wsPeriod v indexedAtt pubKey signingRoot
                     = Some (Some failedAttLocalProtectionErr, v') \<and>
                   db v' = db v \<and>
                   events v' = events v @
                     (if emitAccountMetrics v then [ValidatorAttestFailVec pubKey] else []))) \<and>
         (\<not> slashable verd \<and>
          MarkAllAsAttestedSinceLatestWrittenEpoch wsPeriod attesterHistory
            (Data_Target_Epoch indexedAtt)
            \<lparr>Source = Data_Source_Epoch indexedAtt, SigningRoot = signingRoot\<rparr> = Inr newHistory \<and>
          dbWriteError v pubKey = None \<and> protector v = Some p \<and> SlasherProtection v \<longrightarrow>
            (\<not> CheckAttestationSafety p indexedAtt \<longrightarrow>
               (\<exists>v'. slashableAttestationCheck wsPeriod v indexedAtt pubKey signingRoot
                        = Some (Some failedPreAttSignExternalErr, v') \<and>
                      db v' pubKey = Some newHistory \<and>
                      GetTargetData wsPeriod newHistory (Data_Target_Epoch indexedAtt) =
                        Inr (Some \<lparr>Source = Data_Source_Epoch indexedAtt,
                                    SigningRoot = signingRoot\<rparr>) \<and>
                      events v' = events v @
                        [SavedAttestationHistory pubKey newHistory,
                         CalledCheckAttestationSafety indexedAtt] @
                        (if emitAccountMetrics v then [ValidatorAttestFailVecSlasher pubKey]
                         else []))) \<and>
            (CheckAttestationSafety p indexedAtt \<and> \<not> CommitAttestation p indexedAtt \<longrightarrow>
               (\<exists>v'. slashableAttestationCheck wsPeriod v indexedAtt pubKey signingRoot
                        = Some (Some failedPostAttSignExternalErr, v') \<and>
                      db v' pubKey = Some newHistory \<and>
                      events v' = events v @
                        [SavedAttestationHistory pubKey newHistory,
                         CalledCheckAttestationSafety indexedAtt,
                         CalledCommitAttestation indexedAtt] @
                        (if emitAccountMetrics v then [ValidatorAttestFailVecSlasher pubKey]
                         else []))))"
proof (intro conjI impI)
  assume "slashable verd"
  then show "\<exists>v'. slashableAttestationCheck wsPeriod v indexedAtt pubKey signingRoot
                     = Some (Some failedAttLocalProtectionErr, v') \<and>
                   db v' = db v \<and>
                   events v' = events v @
                     (if emitAccountMetrics v then [ValidatorAttestFailVec pubKey] else [])"
    using load chk by (simp add: slashableAttestationCheck_def incMetric_def)
next
  assume a: "\<not> slashable verd \<and>
          MarkAllAsAttestedSinceLatestWrittenEpoch wsPeriod attesterHistory
            (Data_Target_Epoch indexedAtt)
            \<lparr>Source = Data_Source_Epoch indexedAtt, SigningRoot = signingRoot\<rparr> = Inr newHistory \<and>
          dbWriteError v pubKey = None \<and> protector v = Some p \<and> SlasherProtection v"
    and b: "\<not> CheckAttestationSafety p indexedAtt"
  have t: "GetTargetData wsPeriod newHistory (Data_Target_Epoch indexedAtt) =
             Inr (Some \<lparr>Source = Data_Source_Epoch indexedAtt, SigningRoot = signingRoot\<rparr>)"
    using a by (blast intro: MarkAll_records_vote)
  show "\<exists>v'. slashableAttestationCheck wsPeriod v indexedAtt pubKey signingRoot
                        = Some (Some failedPreAttSignExternalErr, v') \<and>
                      db v' pubKey = Some newHistory \<and>
                      GetTargetData wsPeriod newHistory (Data_Target_Epoch indexedAtt) =
                        Inr (Some \<lparr>Source = Data_Source_Epoch indexedAtt,
                                    SigningRoot = signingRoot\<rparr>) \<and>
                      events v' = events v @
                        [SavedAttestationHistory pubKey newHistory,
                         CalledCheckAttestationSafety indexedAtt] @
                        (if emitAccountMetrics v then [ValidatorAttestFailVecSlasher pubKey]
                         else [])"
    using load chk a b t
    by (simp add: slashableAttestationCheck_def incMetric_def
          SaveAttestationHistoryForPubKeyV2_def)
next
  assume a: "\<not> slashable verd \<and>
          MarkAllAsAttestedSinceLatestWrittenEpoch wsPeriod attesterHistory
            (Data_Target_Epoch indexedAtt)
            \<lparr>Source = Data_Source_Epoch indexedAtt, SigningRoot = signingRoot\<rparr> = Inr newHistory \<and>
          dbWriteError v pubKey = None \<and> protector v = Some p \<and> SlasherProtection v"
    and b: "CheckAttestationSafety p indexedAtt \<and> \<not> CommitAttestation p indexedAtt"
  show "\<exists>v'. slashableAttestationCheck wsPeriod v indexedAtt pubKey signingRoot
                        = Some (Some failedPostAttSignExternalErr, v') \<and>
                      db v' pubKey = Some newHistory \<and>
                      events v' = events v @
                        [SavedAttestationHistory pubKey newHistory,
                         CalledCheckAttestationSafety indexedAtt,
                         CalledCommitAttestation indexedAtt] @
                        (if emitAccountMetrics v then [ValidatorAttestFailVecSlasher pubKey]
                         else [])"
    using load chk a b
    by (simp add: slashableAttestationCheck_def incMetric_def
          SaveAttestationHistoryForPubKeyV2_def)
qed


theorem rejection_state_effects_witness:
  "(AttestationHistoryForPubKeyV2 (testValidator (Some oneVoteHistory) None) [9]
      = Inr (Some oneVoteHistory) \<and>
    isNewAttSlashable 4 (Some oneVoteHistory) (Data_Source_Epoch vote01)
      (Data_Target_Epoch vote01) [2] = Some (Inr DoubleVote) \<and>
    slashable DoubleVote \<and>
    (\<exists>v'. slashableAttestationCheck 4 (testValidator (Some oneVoteHistory) None) vote01 [9] [2]
             = Some (Some failedAttLocalProtectionErr, v') \<and>
           db v' = db (testValidator (Some oneVoteHistory) None) \<and>
           events v' = events (testValidator (Some oneVoteHistory) None) @
             (if emitAccountMetrics (testValidator (Some oneVoteHistory) None)
              then [ValidatorAttestFailVec [9]] else []))) \<and>
   (AttestationHistoryForPubKeyV2 (testValidator None (Some refusingProtector)) [9] = Inr None \<and>
    isNewAttSlashable 4 None (Data_Source_Epoch vote01) (Data_Target_Epoch vote01) [1]
      = Some (Inr NotSlashable) \<and>
    \<not> slashable NotSlashable \<and>
    MarkAllAsAttestedSinceLatestWrittenEpoch 4 None (Data_Target_Epoch vote01)
      \<lparr>Source = Data_Source_Epoch vote01, SigningRoot = [1]\<rparr> = Inr oneVoteHistory \<and>
    dbWriteError (testValidator None (Some refusingProtector)) [9] = None \<and>
    protector (testValidator None (Some refusingProtector)) = Some refusingProtector \<and>
    SlasherProtection (testValidator None (Some refusingProtector)) \<and>
    \<not> CheckAttestationSafety refusingProtector vote01 \<and>
    (\<exists>v'. slashableAttestationCheck 4 (testValidator None (Some refusingProtector)) vote01 [9] [1]
             = Some (Some failedPreAttSignExternalErr, v') \<and>
           db v' [9] = Some oneVoteHistory \<and>
           GetTargetData 4 oneVoteHistory (Data_Target_Epoch vote01) =
             Inr (Some \<lparr>Source = Data_Source_Epoch vote01, SigningRoot = [1]\<rparr>) \<and>
           events v' = events (testValidator None (Some refusingProtector)) @
             [SavedAttestationHistory [9] oneVoteHistory, CalledCheckAttestationSafety vote01] @
             (if emitAccountMetrics (testValidator None (Some refusingProtector))
              then [ValidatorAttestFailVecSlasher [9]] else []))) \<and>
   (protector (testValidator None (Some commitRefusingProtector)) = Some commitRefusingProtector \<and>
    CheckAttestationSafety commitRefusingProtector vote01 \<and>
    \<not> CommitAttestation commitRefusingProtector vote01 \<and>
    (\<exists>v'. slashableAttestationCheck 4 (testValidator None (Some commitRefusingProtector))
             vote01 [9] [1] = Some (Some failedPostAttSignExternalErr, v') \<and>
           db v' [9] = Some oneVoteHistory \<and>
           events v' = events (testValidator None (Some commitRefusingProtector)) @
             [SavedAttestationHistory [9] oneVoteHistory, CalledCheckAttestationSafety vote01,
              CalledCommitAttestation vote01] @
             (if emitAccountMetrics (testValidator None (Some commitRefusingProtector))
              then [ValidatorAttestFailVecSlasher [9]] else [])))"
proof -
  have l1: "AttestationHistoryForPubKeyV2 (testValidator (Some oneVoteHistory) None) [9]
      = Inr (Some oneVoteHistory)"
    by (simp add: AttestationHistoryForPubKeyV2_def testValidator_def)
  have c1: "isNewAttSlashable 4 (Some oneVoteHistory) (Data_Source_Epoch vote01)
      (Data_Target_Epoch vote01) [2] = Some (Inr DoubleVote)"
    by (simp add: slashing_eval oneVoteHistory_def vote01_def)
  have s1: "slashable DoubleVote" by (simp add: slashable_def)
  have l2: "AttestationHistoryForPubKeyV2 (testValidator None (Some p)) [9] = Inr None" for p
    by (simp add: AttestationHistoryForPubKeyV2_def testValidator_def)
  have c2: "isNewAttSlashable 4 None (Data_Source_Epoch vote01) (Data_Target_Epoch vote01) [1]
      = Some (Inr NotSlashable)"
    by (simp add: isNewAttSlashable_def)
  have s2: "\<not> slashable NotSlashable" by (simp add: slashable_def)
  have m2: "MarkAllAsAttestedSinceLatestWrittenEpoch 4 None (Data_Target_Epoch vote01)
      \<lparr>Source = Data_Source_Epoch vote01, SigningRoot = [1]\<rparr> = Inr oneVoteHistory"
    using MarkAll_first_vote by (simp add: vote01_def)
  have e2: "dbWriteError (testValidator None (Some p)) [9] = None"
    "protector (testValidator None (Some p)) = Some p"
    "SlasherProtection (testValidator None (Some p))" for p
    by (simp_all add: testValidator_def)
  have p2: "\<not> CheckAttestationSafety refusingProtector vote01"
    by (simp add: refusingProtector_def)
  have p3: "CheckAttestationSafety commitRefusingProtector vote01"
    "\<not> CommitAttestation commitRefusingProtector vote01"
    by (simp_all add: commitRefusingProtector_def)
  note A = rejection_state_effects[OF l1 c1, THEN conjunct1, rule_format, OF s1]
  note B = rejection_state_effects[OF l2 c2, THEN conjunct2, rule_format,
             OF conjI[OF s2 conjI[OF m2 conjI[OF e2(1) conjI[OF e2(2) e2(3)]]]],
             THEN conjunct1, rule_format, OF p2]
  note C = rejection_state_effects[OF l2 c2, THEN conjunct2, rule_format,
             OF conjI[OF s2 conjI[OF m2 conjI[OF e2(1) conjI[OF e2(2) e2(3)]]]],
             THEN conjunct2, rule_format, OF conjI[OF p3(1) p3(2)]]
  show ?thesis
    by (intro conjI l1 c1 s1 A l2 c2 s2 m2 e2 p2 p3 B C)
qed


subsection \<open>A nil history\<close>

text \<open>
  C9: for a nil history \<open>isNewAttSlashable\<close> returns not slashable, with no error, for
  every source epoch, target epoch and signing root. \<open>slashableAttestationCheck\<close> then goes
  on to record the vote: when the write succeeds and no external slasher is consulted, it
  returns nil and the database holds a history that records the vote.
\<close>

theorem nil_history_not_slashable:
  "isNewAttSlashable wsPeriod None sourceEpoch targetEpoch signingRoot = Some (Inr NotSlashable) \<and>
   (db v pubKey = None \<and> dbReadError v pubKey = None \<and> dbWriteError v pubKey = None \<and>
    wsPeriod \<noteq> 0 \<and> (protector v = None \<or> \<not> SlasherProtection v) \<longrightarrow>
    (\<exists>v' newHistory.
       slashableAttestationCheck wsPeriod v indexedAtt pubKey signingRoot = Some (None, v') \<and>
       db v' pubKey = Some newHistory \<and>
       GetLatestEpochWritten newHistory = Inr (Data_Target_Epoch indexedAtt) \<and>
       GetTargetData wsPeriod newHistory (Data_Target_Epoch indexedAtt) =
         Inr (Some \<lparr>Source = Data_Source_Epoch indexedAtt, SigningRoot = signingRoot\<rparr>)))"
proof (intro conjI impI)
  show "isNewAttSlashable wsPeriod None sourceEpoch targetEpoch signingRoot = Some (Inr NotSlashable)"
    by (simp add: isNewAttSlashable_def)
next
  assume a: "db v pubKey = None \<and> dbReadError v pubKey = None \<and> dbWriteError v pubKey = None \<and>
    wsPeriod \<noteq> 0 \<and> (protector v = None \<or> \<not> SlasherProtection v)"
  let ?vote = "\<lparr>Source = Data_Source_Epoch indexedAtt, SigningRoot = signingRoot\<rparr>"
  obtain newHistory where m: "MarkAllAsAttestedSinceLatestWrittenEpoch wsPeriod None
        (Data_Target_Epoch indexedAtt) ?vote = Inr newHistory"
    and l: "GetLatestEpochWritten newHistory = Inr (Data_Target_Epoch indexedAtt)"
    using MarkAll_nil[of wsPeriod] a by blast
  have t: "GetTargetData wsPeriod newHistory (Data_Target_Epoch indexedAtt) = Inr (Some ?vote)"
    using m by (rule MarkAll_records_vote)
  let ?v' = "v\<lparr>db := (db v)(pubKey := Some newHistory),
                events := events v @ [SavedAttestationHistory pubKey newHistory]\<rparr>"
  have "slashableAttestationCheck wsPeriod v indexedAtt pubKey signingRoot = Some (None, ?v')"
    using a m
    by (auto simp: slashableAttestationCheck_def AttestationHistoryForPubKeyV2_def
          isNewAttSlashable_def slashable_def SaveAttestationHistoryForPubKeyV2_def
          split: option.splits)
  moreover have "db ?v' pubKey = Some newHistory" by simp
  ultimately show "\<exists>v' newHistory.
       slashableAttestationCheck wsPeriod v indexedAtt pubKey signingRoot = Some (None, v') \<and>
       db v' pubKey = Some newHistory \<and>
       GetLatestEpochWritten newHistory = Inr (Data_Target_Epoch indexedAtt) \<and>
       GetTargetData wsPeriod newHistory (Data_Target_Epoch indexedAtt) = Inr (Some ?vote)"
    using l t by blast
qed

theorem nil_history_not_slashable_witness:
  "(db (testValidator None None) [9] = None \<and> dbReadError (testValidator None None) [9] = None \<and>
    dbWriteError (testValidator None None) [9] = None \<and> (4::u64) \<noteq> 0 \<and>
    (protector (testValidator None None) = None \<or> \<not> SlasherProtection (testValidator None None))) \<and>
   isNewAttSlashable 4 None 7 3 [5] = Some (Inr NotSlashable) \<and>
   (\<exists>v' newHistory.
       slashableAttestationCheck 4 (testValidator None None) vote01 [9] [1] = Some (None, v') \<and>
       db v' [9] = Some newHistory \<and>
       GetLatestEpochWritten newHistory = Inr (Data_Target_Epoch vote01) \<and>
       GetTargetData 4 newHistory (Data_Target_Epoch vote01) =
         Inr (Some \<lparr>Source = Data_Source_Epoch vote01, SigningRoot = [1]\<rparr>))"
proof -
  have h: "db (testValidator None None) [9] = None \<and> dbReadError (testValidator None None) [9] = None \<and>
    dbWriteError (testValidator None None) [9] = None \<and> (4::u64) \<noteq> 0 \<and>
    (protector (testValidator None None) = None \<or> \<not> SlasherProtection (testValidator None None))"
    by (simp add: testValidator_def)
  note t = nil_history_not_slashable[of 4 7 3 "[5]" "testValidator None None" "[9]" vote01]
  show ?thesis
    by (intro conjI h t[THEN conjunct1])
       (rule nil_history_not_slashable[of 4 _ _ "[1]" "testValidator None None" "[9]" vote01,
          THEN conjunct2, rule_format, OF h])
qed


subsection \<open>The double-vote check\<close>










subsection \<open>The verdict of the surround check\<close>

text \<open>
  When the history holds both a record that the new vote surrounds and a record that
  surrounds the new vote, the first scan returns and the vote is reported as surrounding,
  not as surrounded.
\<close>

theorem surround_counterexample:
  "isSurroundVote 100 (AttestingHistory 10 twoVotesSlots) 10 1 5 = Some (Inr SurroundingVote) \<and>
   isSurroundVote 100 (AttestingHistory 10 twoVotesSlots) 10 1 5 \<noteq> Some (Inr SurroundedVote) \<and>
   (5::u64) \<le> 10 \<and> (10::u64) \<le> 10 \<and> surroundedRecordAt 100 twoVotesSlots 10 1 5 10"
  by (simp add: slashing_eval twoVotesSlots_def surroundedRecordAt_def)


text \<open>
  C2 (amended): on a readable history with \<open>latestEpochWritten\<close> and the new target both
  below the maximum uint64 value, \<open>isSurroundVote\<close> reports a surrounding vote exactly when
  some epoch \<open>i\<close> in \<open>[sourceEpoch, targetEpoch]\<close>, not above \<open>latestEpochWritten\<close> and
  inside the weak-subjectivity window, holds a non-empty record with
  \<open>sourceEpoch < prevSource\<close> and \<open>i < targetEpoch\<close>; it reports a surrounded vote
  exactly when there is no such record and some epoch \<open>i\<close> in
  \<open>[targetEpoch, latestEpochWritten]\<close> holds a non-empty record with
  \<open>prevSource < sourceEpoch\<close> and \<open>targetEpoch < i\<close>; otherwise it reports not slashable.
\<close>

theorem isSurroundVote_verdict:
  assumes "targetEpoch < 0xFFFFFFFFFFFFFFFF" and "latest < 0xFFFFFFFFFFFFFFFF"
  shows "(isSurroundVote wsPeriod (AttestingHistory latest slots) latest sourceEpoch targetEpoch
            = Some (Inr SurroundingVote) \<longleftrightarrow>
          (\<exists>i. sourceEpoch \<le> i \<and> i \<le> targetEpoch \<and>
               surroundingRecordAt wsPeriod slots latest sourceEpoch targetEpoch i)) \<and>
         (isSurroundVote wsPeriod (AttestingHistory latest slots) latest sourceEpoch targetEpoch
            = Some (Inr SurroundedVote) \<longleftrightarrow>
          \<not> (\<exists>i. sourceEpoch \<le> i \<and> i \<le> targetEpoch \<and>
                 surroundingRecordAt wsPeriod slots latest sourceEpoch targetEpoch i) \<and>
          (\<exists>i. targetEpoch \<le> i \<and> i \<le> latest \<and>
               surroundedRecordAt wsPeriod slots latest sourceEpoch targetEpoch i)) \<and>
         (isSurroundVote wsPeriod (AttestingHistory latest slots) latest sourceEpoch targetEpoch
            = Some (Inr NotSlashable) \<longleftrightarrow>
          \<not> (\<exists>i. sourceEpoch \<le> i \<and> i \<le> targetEpoch \<and>
                 surroundingRecordAt wsPeriod slots latest sourceEpoch targetEpoch i) \<and>
          \<not> (\<exists>i. targetEpoch \<le> i \<and> i \<le> latest \<and>
                 surroundedRecordAt wsPeriod slots latest sourceEpoch targetEpoch i))"
proof -
  have T: "targetEpoch \<noteq> - 1" and L: "latest \<noteq> - 1"
    using assms by auto
  define b1 where "b1 = (\<exists>i. sourceEpoch \<le> i \<and> i \<le> targetEpoch \<and>
               surroundingRecordAt wsPeriod slots latest sourceEpoch targetEpoch i)"
  define b2 where "b2 = (\<exists>i. targetEpoch \<le> i \<and> i \<le> latest \<and>
               surroundedRecordAt wsPeriod slots latest sourceEpoch targetEpoch i)"
  have eq: "isSurroundVote wsPeriod (AttestingHistory latest slots) latest sourceEpoch targetEpoch
      = Some (Inr (if b1 then SurroundingVote else if b2 then SurroundedVote else NotSlashable))"
    unfolding b1_def b2_def by (rule isSurroundVote_readable[OF T L])
  show ?thesis
    unfolding eq b1_def[symmetric] b2_def[symmetric] by (cases b1; cases b2; simp)
qed



theorem isSurroundVote_verdict_witness:
  "(5::u64) < 0xFFFFFFFFFFFFFFFF \<and> (10::u64) < 0xFFFFFFFFFFFFFFFF \<and>
   isSurroundVote 100 (AttestingHistory 10 twoVotesSlots) 10 1 5 = Some (Inr SurroundingVote) \<and>
   (\<exists>i. (1::u64) \<le> i \<and> i \<le> 5 \<and> surroundingRecordAt 100 twoVotesSlots 10 1 5 i)"
proof -
  have h1: "(5::u64) < 0xFFFFFFFFFFFFFFFF" by simp
  have h2: "(10::u64) < 0xFFFFFFFFFFFFFFFF" by simp
  have e: "isSurroundVote 100 (AttestingHistory 10 twoVotesSlots) 10 1 5
             = Some (Inr SurroundingVote)"
    by (simp add: slashing_eval twoVotesSlots_def)
  show ?thesis
    using isSurroundVote_verdict[OF h1 h2, of 100 twoVotesSlots 1, THEN conjunct1] e h1 h2
    by blast
qed

section \<open>Properties of the aggregation\<close>

subsection \<open>Length and flags of a bit-vector\<close>

lemma not_less2: "2 * 2 ^ n \<le> (v::nat) \<Longrightarrow> \<not> v < 2"
proof -
  assume a: "2 * 2 ^ n \<le> v"
  have "(1::nat) \<le> 2 ^ n" by simp
  with a show ?thesis by linarith
qed

lemma Len_unique: "2 ^ n \<le> v \<Longrightarrow> v < 2 * 2 ^ n \<Longrightarrow> Len v = n"
proof (induction n arbitrary: v)
  case 0
  then show ?case by (subst Len.simps) simp
next
  case (Suc n)
  have "2 ^ n \<le> v div 2" using Suc.prems by simp
  moreover have "v div 2 < 2 * 2 ^ n" using Suc.prems by simp
  ultimately have "Len (v div 2) = n" by (rule Suc.IH)
  moreover have "\<not> v < 2" using Suc.prems(1) by (simp add: not_less2)
  ultimately show ?case by (subst Len.simps) simp
qed

lemma Len_bounds: "0 < v \<Longrightarrow> 2 ^ Len v \<le> v \<and> v < 2 * 2 ^ Len v"
proof (induction v rule: Len.induct)
  case (1 v)
  show ?case
  proof (cases "v < 2")
    case True
    then have "Len v = 0" by (subst Len.simps) simp
    with "1.prems" True show ?thesis by simp
  next
    case False
    then have "0 < v div 2" by simp
    with "1.IH" False have IH: "2 ^ Len (v div 2) \<le> v div 2" "v div 2 < 2 * 2 ^ Len (v div 2)"
      by simp_all
    have L: "Len v = Len (v div 2) + 1" using False by (subst Len.simps) simp
    from IH show ?thesis unfolding L by auto
  qed
qed

lemma flags_less: "flags v < 2 ^ Len v"
  by (simp add: flags_def)

lemma bit_flags: "bit (flags v) i \<longleftrightarrow> i < Len v \<and> bit v i"
  by (simp add: flags_def bit_take_bit_iff flip: take_bit_eq_mod)

lemma mem_flagBits: "i \<in> flagBits v \<longleftrightarrow> bit (flags v) i"
  by (auto simp: flagBits_def bit_flags)


lemma nat_bit_less: "(x::nat) < 2 ^ n \<Longrightarrow> n \<le> i \<Longrightarrow> \<not> bit x i"
proof -
  assume x: "x < 2 ^ n" and ni: "n \<le> i"
  have "(2::nat) ^ n \<le> 2 ^ i" using ni by (simp add: power_increasing)
  with x have "x < 2 ^ i" by (rule less_le_trans)
  then have "x div 2 ^ i = 0" by simp
  then show ?thesis by (simp add: bit_iff_odd)
qed

lemma nat_less_exp_bits:
  assumes "\<And>i. n \<le> i \<Longrightarrow> \<not> bit (x::nat) i"
  shows "x < 2 ^ n"
proof -
  have "take_bit n x = x"
  proof (rule bit_eqI)
    fix i
    show "bit (take_bit n x) i \<longleftrightarrow> bit x i"
      using assms[of i] by (cases "i < n") (simp_all add: bit_take_bit_iff)
  qed
  moreover have "take_bit n x < 2 ^ n" by simp
  ultimately show ?thesis by simp
qed

lemma and_exp_zero: "(x::nat) < 2 ^ n \<Longrightarrow> x AND 2 ^ n = 0"
  by (rule bit_eqI) (auto simp: bit_and_iff bit_exp_iff dest: nat_bit_less)

lemma or_exp_add: "(x::nat) < 2 ^ n \<Longrightarrow> x OR 2 ^ n = 2 ^ n + x"
  using disjunctive_add_eq_or[OF and_exp_zero, of x n] by (simp add: add.commute)

lemma or_less_exp: "(x::nat) < 2 ^ n \<Longrightarrow> y < 2 ^ n \<Longrightarrow> x OR y < 2 ^ n"
  by (rule nat_less_exp_bits) (auto simp: bit_or_iff dest: nat_bit_less)

lemma Len_or_exp: "(x::nat) < 2 ^ n \<Longrightarrow> Len (x OR 2 ^ n) = n"
  by (rule Len_unique) (simp_all add: or_exp_add)

lemma flags_or_exp: "(x::nat) < 2 ^ n \<Longrightarrow> flags (x OR 2 ^ n) = x"
  by (simp add: flags_def Len_or_exp) (simp add: or_exp_add)

lemma flags_or_less: "Len a = Len b \<Longrightarrow> flags a OR flags b < 2 ^ Len a"
proof -
  assume eq: "Len a = Len b"
  have "flags a < 2 ^ Len a" "flags b < 2 ^ Len a"
    using flags_less[of a] flags_less[of b] eq by simp_all
  then show ?thesis by (rule or_less_exp)
qed

lemma Len_Or: "Len a = Len b \<Longrightarrow> Len (Or a b) = Len a"
  unfolding Or_def by (rule Len_or_exp) (rule flags_or_less)

lemma flags_Or: "Len a = Len b \<Longrightarrow> flags (Or a b) = flags a OR flags b"
  unfolding Or_def by (rule flags_or_exp) (rule flags_or_less)

lemma sentinel_Or: "bit (Or a b) (Len a)"
  by (simp add: Or_def bit_or_iff bit_exp_iff)

lemma flagBits_Or: "Len a = Len b \<Longrightarrow> flagBits (Or a b) = flagBits a \<union> flagBits b"
  by (auto simp: mem_flagBits flags_Or bit_or_iff)

lemma Overlaps_iff: "Overlaps a b \<longleftrightarrow> flagBits a \<inter> flagBits b \<noteq> {}"
proof -
  have "flags a AND flags b \<noteq> 0 \<longleftrightarrow> (\<exists>i. bit (flags a AND flags b) i)"
    by (auto simp: bit_eq_iff)
  then show ?thesis
    by (auto simp: Overlaps_def mem_flagBits bit_and_iff)
qed

lemma Contains_iff: "Contains g a \<longleftrightarrow> flagBits a \<subseteq> flagBits g"
proof -
  have "flags g OR flags a = flags g \<longleftrightarrow> (\<forall>i. bit (flags a) i \<longrightarrow> bit (flags g) i)"
    by (auto simp: bit_eq_iff bit_or_iff)
  then show ?thesis
    by (auto simp: Contains_def mem_flagBits)
qed


subsection \<open>Merging a pair\<close>

text \<open>
  C5: \<open>AggregatePair\<close> fails with \<open>ErrBitsDifferentLen\<close> when the logical lengths differ,
  and with \<open>ErrBitsOverlap\<close> when they are equal and the flag bits meet; otherwise it
  returns an attestation of the shared length, with the sentinel at that length, whose flag
  bits are the union of those of \<open>a\<close> and \<open>b\<close>. In particular \<open>{0x03}\<close> and
  \<open>{0x02}\<close> merge to \<open>{0x03}\<close> in both orders, \<open>{0x1F}\<close> and \<open>{0x11}\<close> overlap, and
  \<open>{0x0F}\<close> and \<open>{0x11}\<close> differ in length.
\<close>

theorem AggregatePair_correct:
  "(attLen a \<noteq> attLen b \<longrightarrow> AggregatePair a b = Inl ErrBitsDifferentLen) \<and>
   (attLen a = attLen b \<and>
    flagBits (AggregationBits a) \<inter> flagBits (AggregationBits b) \<noteq> {} \<longrightarrow>
      AggregatePair a b = Inl ErrBitsOverlap) \<and>
   (attLen a = attLen b \<and>
    flagBits (AggregationBits a) \<inter> flagBits (AggregationBits b) = {} \<longrightarrow>
      (\<exists>m. AggregatePair a b = Inr m \<and> attLen m = attLen a \<and>
           bit (AggregationBits m) (attLen a) \<and>
           flagBits (AggregationBits m) =
             flagBits (AggregationBits a) \<union> flagBits (AggregationBits b))) \<and>
   AggregatePair (makeAttestation (Bitlist [0x03])) (makeAttestation (Bitlist [0x02]))
     = Inr (makeAttestation (Bitlist [0x03])) \<and>
   AggregatePair (makeAttestation (Bitlist [0x02])) (makeAttestation (Bitlist [0x03]))
     = Inr (makeAttestation (Bitlist [0x03])) \<and>
   AggregatePair (makeAttestation (Bitlist [0x1F])) (makeAttestation (Bitlist [0x11]))
     = Inl ErrBitsOverlap \<and>
   AggregatePair (makeAttestation (Bitlist [0x0F])) (makeAttestation (Bitlist [0x11]))
     = Inl ErrBitsDifferentLen"
proof (intro conjI impI)
  assume "attLen a \<noteq> attLen b"
  then show "AggregatePair a b = Inl ErrBitsDifferentLen"
    by (simp add: AggregatePair_def attLen_def)
next
  assume "attLen a = attLen b \<and>
    flagBits (AggregationBits a) \<inter> flagBits (AggregationBits b) \<noteq> {}"
  then show "AggregatePair a b = Inl ErrBitsOverlap"
    by (simp add: AggregatePair_def attLen_def Overlaps_iff)
next
  assume h: "attLen a = attLen b \<and>
    flagBits (AggregationBits a) \<inter> flagBits (AggregationBits b) = {}"
  then have eq: "Len (AggregationBits a) = Len (AggregationBits b)"
    by (simp add: attLen_def)
  have "AggregatePair a b =
          Inr (a\<lparr>AggregationBits := Or (AggregationBits a) (AggregationBits b)\<rparr>)"
    using h by (simp add: AggregatePair_def attLen_def Overlaps_iff)
  then show "\<exists>m. AggregatePair a b = Inr m \<and> attLen m = attLen a \<and>
           bit (AggregationBits m) (attLen a) \<and>
           flagBits (AggregationBits m) =
             flagBits (AggregationBits a) \<union> flagBits (AggregationBits b)"
    using Len_Or[OF eq] flagBits_Or[OF eq]
      sentinel_Or[of "AggregationBits a" "AggregationBits b"]
    by (simp add: attLen_def)
qed code_simp+


theorem AggregatePair_correct_witness:
  "(attLen (makeAttestation (Bitlist [0x0F])) \<noteq> attLen (makeAttestation (Bitlist [0x11])) \<and>
    AggregatePair (makeAttestation (Bitlist [0x0F])) (makeAttestation (Bitlist [0x11]))
      = Inl ErrBitsDifferentLen) \<and>
   ((attLen (makeAttestation (Bitlist [0x1F])) = attLen (makeAttestation (Bitlist [0x11])) \<and>
     flagBits (AggregationBits (makeAttestation (Bitlist [0x1F]))) \<inter>
       flagBits (AggregationBits (makeAttestation (Bitlist [0x11]))) \<noteq> {}) \<and>
    AggregatePair (makeAttestation (Bitlist [0x1F])) (makeAttestation (Bitlist [0x11]))
      = Inl ErrBitsOverlap) \<and>
   ((attLen (makeAttestation (Bitlist [0x03])) = attLen (makeAttestation (Bitlist [0x02])) \<and>
     flagBits (AggregationBits (makeAttestation (Bitlist [0x03]))) \<inter>
       flagBits (AggregationBits (makeAttestation (Bitlist [0x02]))) = {}) \<and>
    (\<exists>m. AggregatePair (makeAttestation (Bitlist [0x03])) (makeAttestation (Bitlist [0x02]))
            = Inr m \<and>
          attLen m = attLen (makeAttestation (Bitlist [0x03])) \<and>
          bit (AggregationBits m) (attLen (makeAttestation (Bitlist [0x03]))) \<and>
          flagBits (AggregationBits m) =
            flagBits (AggregationBits (makeAttestation (Bitlist [0x03]))) \<union>
            flagBits (AggregationBits (makeAttestation (Bitlist [0x02])))))"
proof -
  have h1: "attLen (makeAttestation (Bitlist [0x0F])) \<noteq> attLen (makeAttestation (Bitlist [0x11]))"
    by code_simp
  have h2: "attLen (makeAttestation (Bitlist [0x1F])) = attLen (makeAttestation (Bitlist [0x11])) \<and>
     flagBits (AggregationBits (makeAttestation (Bitlist [0x1F]))) \<inter>
       flagBits (AggregationBits (makeAttestation (Bitlist [0x11]))) \<noteq> {}"
    by code_simp
  have h3: "attLen (makeAttestation (Bitlist [0x03])) = attLen (makeAttestation (Bitlist [0x02])) \<and>
     flagBits (AggregationBits (makeAttestation (Bitlist [0x03]))) \<inter>
       flagBits (AggregationBits (makeAttestation (Bitlist [0x02]))) = {}"
    by code_simp
  note c1 = AggregatePair_correct[THEN conjunct1, rule_format, OF h1]
  note c2 = AggregatePair_correct[THEN conjunct2, THEN conjunct1, rule_format, OF h2]
  note c3 = AggregatePair_correct[THEN conjunct2, THEN conjunct2, THEN conjunct1,
              rule_format, OF h3]
  show ?thesis
    by (intro conjI h1 h2 h3 c1 c2 c3)
qed


subsection \<open>Subsumed attestations\<close>


end
